theory Spec2Isabelle
  imports Main "HOL-Library.Word" "HOL-Library.AList" "HOL-Library.Multiset"
    "HOL-Library.Monad_Syntax"
begin

unbundle bit_operations_syntax

section \<open>The staking ledger (berith/staking/staking_map.go)\<close>

text \<open>
  \<^verbatim>\<open>common.Address\<close> is a 20-byte array; \<^verbatim>\<open>bytes.Compare\<close> on two such arrays
  is the unsigned comparison of the 160-bit big-endian numbers they spell, which is the
  order of \<open>160 word\<close>. A \<^verbatim>\<open>*big.Int\<close> is an unbounded \<open>int\<close> (a nil pointer is
  not modelled). A Go map is an association list: the order of the list stands for one
  iteration order of the map, \<open>map_of\<close> is the lookup, \<open>AList.update\<close> the store
  \<^verbatim>\<open>m[k] = v\<close> and \<open>AList.delete\<close> the builtin \<^verbatim>\<open>delete(m, k)\<close>.
\<close>

type_synonym address = "160 word"
type_synonym byte = "8 word"

record stkInfo =
  StkAddress :: address
  StkValue :: int
  StkBlockNumber :: int

text \<open>
  \<^verbatim>\<open>VoteResult\<close> is declared in a file that is not modelled here; \<^verbatim>\<open>GetDifficultyAndRank\<close>
  builds one from a \<^verbatim>\<open>*big.Int\<close> field \<^verbatim>\<open>Score\<close> and an \<^verbatim>\<open>int\<close> field \<^verbatim>\<open>Rank\<close>.
\<close>

record VoteResult =
  Score :: int
  Rank :: int

record StakingMap =
  storage :: "(address \<times> stkInfo) list"
  sortedList :: "address list"
  miners :: "(address \<times> bool) list"
  table :: "(address \<times> VoteResult) list"

definition New :: StakingMap where
  "New = \<lparr>storage = [], sortedList = [], miners = [], table = []\<rparr>"

definition Len :: "StakingMap \<Rightarrow> nat" where
  "Len l = length (sortedList l)"

definition GetInfo :: "StakingMap \<Rightarrow> address \<Rightarrow> stkInfo" where
  "GetInfo l a =
     (case map_of (storage l) a of
        None \<Rightarrow> \<lparr>StkAddress = a, StkValue = 0, StkBlockNumber = 0\<rparr>
      | Some info \<Rightarrow>
          \<lparr>StkAddress = a, StkValue = StkValue info, StkBlockNumber = StkBlockNumber info\<rparr>)"

text \<open>
  \<^verbatim>\<open>SetInfo\<close>: \<^verbatim>\<open>info.Value().Cmp(big.NewInt(0)) < 1\<close> is \<open>StkValue info \<le> 0\<close>; that
  branch deletes the key and returns. Only \<^verbatim>\<open>list.storage\<close> is written.
\<close>

definition SetInfo :: "stkInfo \<Rightarrow> StakingMap \<Rightarrow> StakingMap" where
  "SetInfo info l =
     (if StkValue info \<le> 0
      then l\<lparr>storage := AList.delete (StkAddress info) (storage l)\<rparr>
      else l\<lparr>storage := AList.update (StkAddress info)
                \<lparr>StkAddress = StkAddress info, StkValue = StkValue info,
                 StkBlockNumber = StkBlockNumber info\<rparr> (storage l)\<rparr>)"

definition ToArray :: "StakingMap \<Rightarrow> address list" where
  "ToArray l = sortedList l"

definition Delete :: "address \<Rightarrow> StakingMap \<Rightarrow> StakingMap" where
  "Delete a l =
     (if map_of (storage l) a \<noteq> None then l\<lparr>storage := AList.delete a (storage l)\<rparr> else l)"

definition ClearTable :: "StakingMap \<Rightarrow> StakingMap" where
  "ClearTable l = l\<lparr>sortedList := [], table := []\<rparr>"

text \<open>\<^verbatim>\<open>infoForSort.Less\<close>, on the two elements rather than on their indices.\<close>

definition Less :: "stkInfo \<Rightarrow> stkInfo \<Rightarrow> bool" where
  "Less a b =
     (if StkValue a = StkValue b then
        (if StkBlockNumber a = StkBlockNumber b then StkAddress b < StkAddress a
         else StkBlockNumber a < StkBlockNumber b)
      else StkValue b < StkValue a)"

text \<open>
  \<^verbatim>\<open>sort.Sort\<close> is the Go library's sort; it is modelled by insertion sort under
  \<open>Less\<close>. Lemma \<open>sort_Sort_unique\<close> shows that the choice of algorithm, and the
  iteration order of the map, cannot be seen in the result.
\<close>

fun insert_Less :: "stkInfo \<Rightarrow> stkInfo list \<Rightarrow> stkInfo list" where
  "insert_Less x [] = [x]"
| "insert_Less x (y # ys) = (if Less x y then x # y # ys else y # insert_Less x ys)"

definition sort_Sort :: "stkInfo list \<Rightarrow> stkInfo list" where
  "sort_Sort kv = foldr insert_Less kv []"

text \<open>The slice \<^verbatim>\<open>kv\<close> of \<^verbatim>\<open>Sort\<close>, after \<^verbatim>\<open>sort.Sort(&kv)\<close>.\<close>

definition sortedInfos :: "StakingMap \<Rightarrow> stkInfo list" where
  "sortedInfos l = sort_Sort (filter (\<lambda>v. 0 < StkValue v) (map snd (storage l)))"

definition Sort :: "StakingMap \<Rightarrow> StakingMap" where
  "Sort l =
     (if 0 < length (sortedList l) then l
      else l\<lparr>sortedList := map StkAddress (sortedInfos l)\<rparr>)"

text \<open>
  The order the specification gives for the ordered list: amount descending, ties by
  stake block number ascending, remaining ties by address descending. \<open>spec_before x y\<close>
  says that \<open>x\<close> may stand before \<open>y\<close>.
\<close>

definition spec_before :: "stkInfo \<Rightarrow> stkInfo \<Rightarrow> bool" where
  "spec_before x y \<longleftrightarrow>
     StkValue y < StkValue x \<or>
     (StkValue x = StkValue y \<and>
       (StkBlockNumber x < StkBlockNumber y \<or>
        (StkBlockNumber x = StkBlockNumber y \<and> StkAddress y \<le> StkAddress x)))"

text \<open>
  The ordered list as the specification describes it for any ledger state: the entries
  with a positive amount, sorted, whatever the cached list holds.
\<close>

definition spec_ordered :: "StakingMap \<Rightarrow> address list" where
  "spec_ordered l = map StkAddress (sortedInfos l)"

text \<open>A ledger as \<^verbatim>\<open>SetInfo\<close> builds it: every entry is stored under its own address.\<close>

definition keyed :: "StakingMap \<Rightarrow> bool" where
  "keyed l \<longleftrightarrow> (\<forall>(k, v) \<in> set (storage l). StkAddress v = k)"

subsection \<open>The read path: selectSigner and GetDifficultyAndRank\<close>

text \<open>
  \<^verbatim>\<open>*state.StateDB\<close> is the external state; only its two queries are used.
\<close>

record StateDB =
  GetPoint :: "address \<Rightarrow> int"
  GetStakeBalance :: "address \<Rightarrow> int"

text \<open>
  The pool that \<^verbatim>\<open>selectSigner\<close> fills (\<^verbatim>\<open>NewCandidates()\<close>, \<^verbatim>\<open>cs.Add\<close>, \<^verbatim>\<open>cs.ts\<close>)
  and its method \<^verbatim>\<open>BlockCreator\<close> are declared in a file that is not modelled here. The pool is
  the list of the three-field literals handed to \<^verbatim>\<open>Add\<close> together with the running
  sum \<^verbatim>\<open>ts\<close>; \<^verbatim>\<open>BlockCreator\<close> is a parameter of the model.
\<close>

record SignerPool =
  added :: "(address \<times> 64 word \<times> int) list"
  ts :: "64 word"

type_synonym block_creator = "SignerPool \<Rightarrow> 64 word \<Rightarrow> (address \<times> VoteResult) list"

text \<open>\<^verbatim>\<open>(*big.Int).Uint64\<close>: the low 64 bits of the absolute value.\<close>

definition Uint64 :: "int \<Rightarrow> 64 word" where
  "Uint64 x = word_of_int \<bar>x\<bar>"

text \<open>\<^verbatim>\<open>(*big.Int).Int64\<close>: the low 64 bits, read as two's complement.\<close>

definition Int64 :: "int \<Rightarrow> int" where
  "Int64 x = sint (word_of_int x :: 64 word)"

text \<open>
  The body of the \<^verbatim>\<open>for _, addr := range list.sortedList\<close> loop of \<^verbatim>\<open>selectSigner\<close>.
  \<^verbatim>\<open>list.storage[addr]\<close> on a missing key is the zero \<^verbatim>\<open>stkInfo\<close>, whose address is
  the zero address.
\<close>

definition addCandidate :: "StateDB \<Rightarrow> StakingMap \<Rightarrow> SignerPool \<Rightarrow> address \<Rightarrow> SignerPool" where
  "addCandidate states l cs addr =
     (let info = (case map_of (storage l) addr of
                    None \<Rightarrow> \<lparr>StkAddress = 0, StkValue = 0, StkBlockNumber = 0\<rparr>
                  | Some i \<Rightarrow> i)
      in \<lparr>added = added cs @ [(StkAddress info, Uint64 (GetPoint states (StkAddress info)), 0)],
          ts = ts cs + Uint64 (GetStakeBalance states (StkAddress info) div 10 ^ 18)\<rparr>)"

definition signerPool :: "StateDB \<Rightarrow> StakingMap \<Rightarrow> SignerPool" where
  "signerPool states l = foldl (addCandidate states l) \<lparr>added = [], ts = 0\<rparr> (sortedList l)"

definition selectSigner :: "block_creator \<Rightarrow> StateDB \<Rightarrow> 64 word \<Rightarrow> StakingMap \<Rightarrow> StakingMap" where
  "selectSigner BlockCreator states blockNumber l =
     (let l1 = (if length (sortedList l) \<le> 0 then Sort l else l) in
      if length (sortedList l1) \<le> 0 then l1
      else l1\<lparr>table := BlockCreator (signerPool states l1) blockNumber\<rparr>)"

text \<open>
  \<^verbatim>\<open>GetDifficultyAndRank\<close> returns the three results and the ledger, whose table and
  ordered list the call may have filled.
\<close>

definition GetDifficultyAndRank ::
  "block_creator \<Rightarrow> StateDB \<Rightarrow> address \<Rightarrow> 64 word \<Rightarrow> StakingMap \<Rightarrow> (int \<times> int \<times> bool) \<times> StakingMap" where
  "GetDifficultyAndRank BlockCreator states addr blockNumber l =
     (let (reordered, l1) =
            (if length (table l) \<le> 0
             then (True, selectSigner BlockCreator states blockNumber l)
             else (False, l))
      in if length (table l1) \<le> 0 then ((1234, 1, False), l1)
         else (let result = (case map_of (table l1) addr of
                               None \<Rightarrow> \<lparr>Score = 0, Rank = - 1\<rparr>
                             | Some r \<Rightarrow> r)
               in ((Score result, Rank result, reordered), l1)))"

text \<open>
  Modelled from the spec: \<^verbatim>\<open>BlockCreator\<close> is not among the source files. The
  specification's conservation property of a selection round: the set of addresses
  assigned a rank in one round is a subset of the input candidate set.
\<close>

definition ranks_pool_only :: "block_creator \<Rightarrow> bool" where
  "ranks_pool_only BlockCreator \<longleftrightarrow>
     (\<forall>cs n. fst ` set (BlockCreator cs n) \<subseteq> fst ` set (added cs))"

(*CODEC_DEFS*)

section \<open>The candidate pool and the selection round\<close>

text \<open>
  The second file of the package: \<^verbatim>\<open>Candidate\<close>, \<^verbatim>\<open>Candidates\<close>, \<^verbatim>\<open>TotalStakeBalance\<close>,
  \<^verbatim>\<open>GetSeed\<close>, \<^verbatim>\<open>GetBlockCreator\<close>, \<^verbatim>\<open>nextCandidate\<close> and \<^verbatim>\<open>removeSlice\<close>.
\<close>

definition DIF_MAX :: int where
  "DIF_MAX = 500000"

definition DIF_MIN :: int where
  "DIF_MIN = 10000"

record Candidate =
  address :: address
  stake :: int
  block :: int
  reward :: int

record Candidates =
  number :: "64 word"
  period :: "64 word"
  selections :: "Candidate list"

definition NewCandidates :: "64 word \<Rightarrow> 64 word \<Rightarrow> Candidates" where
  "NewCandidates n p = \<lparr>number = n, period = p, selections = []\<rparr>"

text \<open>
  What the round takes from floating-point and library code.
  \<^item> \<^verbatim>\<open>GetAdvantage\<close> computes in \<^verbatim>\<open>float64\<close>; its result enters the integer
    arithmetic only through \<^verbatim>\<open>int64(c.GetAdvantage(cs.number, cs.period)*10)\<close>, for
    which \<open>GetAdvantage_x10 E number period c\<close> stands. When \<^verbatim>\<open>c.block\<close> equals
    \<^verbatim>\<open>number\<close> the quotient is \<open>0.0\<close> and the expression is \<open>0\<close>; when the stake is
    old enough \<^verbatim>\<open>GetAdvantage\<close> returns \<open>1\<close> and the expression is \<open>10\<close>.
  \<^item> \<open>sha256_Sum\<close> is \<^verbatim>\<open>crypto/sha256\<close>: the digest of the bytes written.
  \<^item> \<open>rand_Seed\<close> and \<open>rand_Int63n\<close> are \<^verbatim>\<open>math/rand\<close>: the generator state that a
    seed gives, and one draw below a bound together with the next generator state.
\<close>

record 'g extern =
  GetAdvantage_x10 :: "64 word \<Rightarrow> 64 word \<Rightarrow> Candidate \<Rightarrow> int"
  sha256_Sum :: "byte list \<Rightarrow> byte list"
  rand_Seed :: "int \<Rightarrow> 'g"
  rand_Int63n :: "'g \<Rightarrow> int \<Rightarrow> int \<times> 'g"

text \<open>
  \<^verbatim>\<open>(*big.Int).Div\<close> is Euclidean division; for the positive divisors \<open>10\<close> and
  \<open>1e10\<close> it is \<open>div\<close> on \<open>int\<close>.
\<close>

definition advStake :: "'g extern \<Rightarrow> Candidates \<Rightarrow> Candidate \<Rightarrow> int" where
  "advStake E cs c =
     (let adv = GetAdvantage_x10 E (number cs) (period cs) c + 10
      in (stake c * adv) div 10)"

definition TotalStakeBalance :: "'g extern \<Rightarrow> Candidates \<Rightarrow> int" where
  "TotalStakeBalance E cs =
     foldl (\<lambda>total c. total + advStake E cs c) 0 (selections cs) div 10 ^ 10"

text \<open>
  \<^verbatim>\<open>GetSeed\<close>. \<^verbatim>\<open>[]byte{byte(number)}\<close> is the one-byte slice holding the low byte of
  the height. \<^verbatim>\<open>common.BytesToHash\<close> keeps the last 32 bytes and pads on the left with
  zeros; \<^verbatim>\<open>Hash.Big\<close> reads the 32 bytes as a big-endian number.
\<close>

definition seedInput :: "64 word \<Rightarrow> byte list" where
  "seedInput n = [ucast n]"

definition BytesToHash :: "byte list \<Rightarrow> byte list" where
  "BytesToHash b =
     (let b' = drop (length b - 32) b in replicate (32 - length b') 0 @ b')"

definition Big :: "byte list \<Rightarrow> int" where
  "Big h = foldl (\<lambda>n b. n * 256 + uint b) 0 h"

definition GetSeed :: "'g extern \<Rightarrow> 64 word \<Rightarrow> int" where
  "GetSeed E n =
     (let bt = seedInput n;
          md = sha256_Sum E bt;
          h = BytesToHash md
      in Int64 (Big h))"

text \<open>
  The big-endian encoding of a height, as the specification names the input of the hash
  (\<^verbatim>\<open>binary.BigEndian.PutUint64\<close>): eight bytes, most significant first.
\<close>

definition bigEndian64 :: "64 word \<Rightarrow> byte list" where
  "bigEndian64 n = map (\<lambda>i. ucast (drop_bit (8 * i) n)) [7, 6, 5, 4, 3, 2, 1, 0]"

text \<open>
  Results of Go calls: a value, a returned \<^verbatim>\<open>error\<close>, or a run-time panic.
\<close>

datatype fault = slice_bounds_out_of_range | invalid_argument_to_Int63n | integer_divide_by_zero

datatype 'a go = Val 'a | Err string | Panic fault

text \<open>
  \<^verbatim>\<open>nextCandidate\<close>. The slice expression \<^verbatim>\<open>cs.selections[idx:]\<close> panics when
  \<open>idx\<close> exceeds the length; it is evaluated before the size test. \<open>idx\<close> is never
  negative (\<^verbatim>\<open>NEXT\<close> starts at 0 and only grows), so it is a \<open>nat\<close>.
\<close>

definition nextCandidate :: "Candidates \<Rightarrow> nat \<Rightarrow> Candidates go" where
  "nextCandidate cs idx =
     (if length (selections cs) < idx then Panic slice_bounds_out_of_range
      else (let rest = drop idx (selections cs);
                nextSize = length rest
            in if nextSize = 0 then Err ''SIZE ZERO''
               else if length rest < 100
                 then Val ((NewCandidates (number cs) (period cs))\<lparr>selections := rest\<rparr>)
                 else Val ((NewCandidates (number cs) (period cs))\<lparr>selections := take 100 rest\<rparr>)))"

text \<open>\<^verbatim>\<open>removeSlice\<close>; its callers pass an index inside the slice.\<close>

definition removeSlice :: "Candidate list \<Rightarrow> nat \<Rightarrow> Candidate list" where
  "removeSlice cs i = take i cs @ drop (i + 1) cs"

text \<open>
  The variables the closures \<^verbatim>\<open>selector\<close> and \<^verbatim>\<open>loop\<close> and the sampling loop share,
  together with the package variable \<^verbatim>\<open>NEXT\<close> and the state of the generator.
  \<open>assigned\<close> is a history variable that the source does not have: the assignments
  \<^verbatim>\<open>bc[addr] = ...\<close> in the order in which they were made.
\<close>

record 'g round =
  cp :: Candidates
  total :: int
  DIF :: int
  bc :: "(address \<times> int) list"
  NEXT :: nat
  rng :: 'g
  assigned :: "(address \<times> int) list"

text \<open>The weight that \<^verbatim>\<open>selector\<close> and \<^verbatim>\<open>loop\<close> subtract for a candidate.\<close>

definition scanWeight :: "Candidate \<Rightarrow> int" where
  "scanWeight s = stake s div 10 ^ 10"

text \<open>
  The \<^verbatim>\<open>for\<close> loop of \<^verbatim>\<open>selector\<close>, from index \<open>i\<close> on, with the running \<^verbatim>\<open>temp\<close>.
\<close>

fun scan :: "Candidate list \<Rightarrow> nat \<Rightarrow> int \<Rightarrow> int \<Rightarrow> string + (nat \<times> address)" where
  "scan [] i temp v = Inl ''empty SRT''"
| "scan (s # rest) i temp v =
     (let temp' = temp - scanWeight s
      in if v < temp' then scan rest (Suc i) temp' v
         else Inr (i, address s))"

definition selector :: "'g round \<Rightarrow> int \<Rightarrow> string + (nat \<times> address)" where
  "selector s v = scan (selections (cp s)) 0 (total s) v"

definition loop :: "int \<Rightarrow> 'g round \<Rightarrow> int \<Rightarrow> 'g round" where
  "loop DIF_R s v =
     (case selector s v of
        Inl err \<Rightarrow> s
      | Inr (key, addr) \<Rightarrow>
          (let d = (if DIF s = DIF_MAX then DIF_MAX else DIF s)
           in s\<lparr>bc := AList.update addr d (bc s),
                assigned := assigned s @ [(addr, d)],
                DIF := DIF s - DIF_R,
                total := total s - scanWeight (selections (cp s) ! key),
                cp := (cp s)\<lparr>selections := removeSlice (selections (cp s)) key\<rparr>\<rparr>))"

text \<open>
  \<^verbatim>\<open>rand.Int63n\<close> panics for a bound that is not positive and otherwise returns a
  value in \<open>[0, n)\<close>. The model reduces the parameter's draw modulo \<open>n\<close>, which changes
  nothing for a generator that keeps this contract.
\<close>

definition Int63n :: "'g extern \<Rightarrow> 'g \<Rightarrow> int \<Rightarrow> fault + (int \<times> 'g)" where
  "Int63n E g n =
     (if n \<le> 0 then Inl invalid_argument_to_Int63n
      else (let (v, g') = rand_Int63n E g n in Inr (v mod n, g')))"

datatype status = Returned | Panicked fault | OutOfFuel

text \<open>
  The first statement of the sampling loop: when the chunk is empty, move \<^verbatim>\<open>NEXT\<close>
  and fetch the next chunk. \<open>Some\<close> status ends the loop (\<^verbatim>\<open>break\<close>, or a panic).
\<close>

definition refill :: "'g extern \<Rightarrow> Candidates \<Rightarrow> 'g round \<Rightarrow> status option \<times> 'g round" where
  "refill E cs s =
     (if length (selections (cp s)) = 0 then
        (let s1 = s\<lparr>NEXT := NEXT s + 100\<rparr>
         in case nextCandidate cs (NEXT s1) of
              Panic f \<Rightarrow> (Some (Panicked f), s1)
            | Err e \<Rightarrow> (Some Returned, s1)
            | Val cp' \<Rightarrow> (None, s1\<lparr>cp := cp', total := TotalStakeBalance E cp'\<rparr>))
      else (None, s))"

text \<open>
  The sampling loop \<^verbatim>\<open>for { ... }\<close>. It has no bound of its own, so the model counts
  iterations: with no fuel left the status is \<open>OutOfFuel\<close>.
\<close>

fun sampling :: "'g extern \<Rightarrow> Candidates \<Rightarrow> int \<Rightarrow> nat \<Rightarrow> 'g round \<Rightarrow> status \<times> 'g round" where
  "sampling E cs DIF_R 0 s = (OutOfFuel, s)"
| "sampling E cs DIF_R (Suc fuel) s =
     (case refill E cs s of
        (Some st, s1) \<Rightarrow> (st, s1)
      | (None, s1) \<Rightarrow>
          if total s1 = 0 then (Returned, s1)
          else (case Int63n E (rng s1) (Int64 (total s1)) of
                  Inl f \<Rightarrow> (Panicked f, s1)
                | Inr (v, g) \<Rightarrow> sampling E cs DIF_R fuel (loop DIF_R (s1\<lparr>rng := g\<rparr>) v)))"

text \<open>
  What a call of \<^verbatim>\<open>GetBlockCreator\<close> leaves behind: how it ended, the map \<^verbatim>\<open>bc\<close>
  (returned to the caller when the call returns), the package variable \<^verbatim>\<open>NEXT\<close>, and
  the history of assignments.
\<close>

record outcome =
  ended :: status
  created :: "(address \<times> int) list"
  NEXT_after :: nat
  ranked :: "(address \<times> int) list"

definition outcome_of :: "status \<times> 'g round \<Rightarrow> outcome" where
  "outcome_of r =
     \<lparr>ended = fst r, created = bc (snd r), NEXT_after = NEXT (snd r), ranked = assigned (snd r)\<rparr>"

text \<open>
  \<^verbatim>\<open>GetBlockCreator\<close>, with the value of \<^verbatim>\<open>NEXT\<close> at the call as an argument.
  \<^verbatim>\<open>(DIF_MAX - DIF_MIN) / int64(len(cs.selections))\<close> divides two non-negative
  numbers, so Go's truncating division is \<open>div\<close>; a zero divisor would panic.
\<close>

definition GetBlockCreator :: "'g extern \<Rightarrow> nat \<Rightarrow> Candidates \<Rightarrow> 64 word \<Rightarrow> nat \<Rightarrow> outcome" where
  "GetBlockCreator E NEXT0 cs n fuel =
     (case nextCandidate cs NEXT0 of
        Panic f \<Rightarrow> \<lparr>ended = Panicked f, created = [], NEXT_after = NEXT0, ranked = []\<rparr>
      | Err e \<Rightarrow> \<lparr>ended = Returned, created = [], NEXT_after = NEXT0, ranked = []\<rparr>
      | Val cp0 \<Rightarrow>
          if length (selections cs) = 0
          then \<lparr>ended = Panicked integer_divide_by_zero, created = [], NEXT_after = NEXT0,
                ranked = []\<rparr>
          else (let DIF_R = (DIF_MAX - DIF_MIN) div int (length (selections cs));
                    seed = GetSeed E n;
                    g = rand_Seed E seed
                in outcome_of
                     (sampling E cs DIF_R fuel
                        \<lparr>cp = cp0, total = TotalStakeBalance E cp0, DIF = DIF_MAX, bc = [],
                         NEXT = NEXT0, rng = g, assigned = []\<rparr>)))"

section \<open>Concrete ledgers and pools\<close>

definition noCreator :: block_creator where
  "noCreator cs n = []"

definition noState :: StateDB where
  "noState = \<lparr>GetPoint = (\<lambda>a. 0), GetStakeBalance = (\<lambda>a. 0)\<rparr>"

text \<open>A ledger with one staker whose schedule has been computed and cached.\<close>

definition scheduledLedger :: StakingMap where
  "scheduledLedger =
     \<lparr>storage = [(1, \<lparr>StkAddress = 1, StkValue = 300, StkBlockNumber = 0\<rparr>)],
      sortedList = [1], miners = [], table = [(1, \<lparr>Score = 500000, Rank = 0\<rparr>)]\<rparr>"

text \<open>
  Address 2 stakes, the ledger is sorted, address 2 withdraws and address 1 stakes:
  the cached list is now stale.
\<close>

definition staleLedger :: StakingMap where
  "staleLedger =
     SetInfo \<lparr>StkAddress = 1, StkValue = 5, StkBlockNumber = 0\<rparr>
       (SetInfo \<lparr>StkAddress = 2, StkValue = 0, StkBlockNumber = 0\<rparr>
          (Sort (SetInfo \<lparr>StkAddress = 2, StkValue = 1, StkBlockNumber = 0\<rparr> New)))"

text \<open>Three stakers, not yet sorted: the scenario of the specification.\<close>

definition threeStakers :: StakingMap where
  "threeStakers =
     SetInfo \<lparr>StkAddress = 3, StkValue = 100, StkBlockNumber = 0\<rparr>
       (SetInfo \<lparr>StkAddress = 2, StkValue = 300, StkBlockNumber = 0\<rparr>
          (SetInfo \<lparr>StkAddress = 1, StkValue = 300, StkBlockNumber = 0\<rparr> New))"

text \<open>Address 1 stakes, the ledger is sorted, and address 1 sets its amount to 0.\<close>

definition unstakedLedger :: StakingMap where
  "unstakedLedger =
     SetInfo \<lparr>StkAddress = 1, StkValue = 0, StkBlockNumber = 9\<rparr>
       (Sort (SetInfo \<lparr>StkAddress = 1, StkValue = 5, StkBlockNumber = 0\<rparr> New))"

text \<open>
  A selection routine that ranks every member of its pool, in the order of the pool.
\<close>

definition rankInOrder :: block_creator where
  "rankInOrder cs n =
     map (\<lambda>(i, (a, p, z)). (a, \<lparr>Score = 500000 - int i, Rank = int i\<rparr>))
       (enumerate 0 (added cs))"

text \<open>
  The cached schedule of \<open>scheduledLedger\<close> is kept while its only staker sets its
  amount to 0.
\<close>

definition withdrawnLedger :: StakingMap where
  "withdrawnLedger = SetInfo \<lparr>StkAddress = 1, StkValue = 0, StkBlockNumber = 0\<rparr> scheduledLedger"

text \<open>
  Environments. \<open>zeroAdvantage\<close> is any environment in which every candidate's stake
  began at the pool's block number (advantage 0); \<open>fullAdvantage\<close> one in which every
  stake is old enough for the saturated advantage 1. \<open>sampleEnv\<close> fixes the other
  library functions as well: its generator always draws the largest value below the
  bound.
\<close>

definition zeroAdvantage :: "'g extern \<Rightarrow> 'g extern" where
  "zeroAdvantage E = E\<lparr>GetAdvantage_x10 := (\<lambda>n p c. 0)\<rparr>"

definition fullAdvantage :: "'g extern \<Rightarrow> 'g extern" where
  "fullAdvantage E = E\<lparr>GetAdvantage_x10 := (\<lambda>n p c. 10)\<rparr>"

definition sampleEnv :: "nat extern" where
  "sampleEnv =
     \<lparr>GetAdvantage_x10 = (\<lambda>n p c. 0), sha256_Sum = (\<lambda>b. replicate 32 0),
      rand_Seed = (\<lambda>s. 0), rand_Int63n = (\<lambda>g n. (n - 1, Suc g))\<rparr>"

text \<open>One candidate with a stake of \<open>1e10\<close>, staked at the pool's block number.\<close>

definition singlePool :: Candidates where
  "singlePool =
     \<lparr>number = 7, period = 30,
      selections = [\<lparr>address = 1, stake = 10 ^ 10, block = 7, reward = 0\<rparr>]\<rparr>"

text \<open>
  Two candidates staked at block 0, seen at block 2000000 with a period of 30 seconds:
  \<^verbatim>\<open>GetAdvantage\<close> is 1 for both.
\<close>

definition agedPool :: Candidates where
  "agedPool =
     \<lparr>number = 2000000, period = 30,
      selections = [\<lparr>address = 1, stake = 10 ^ 10, block = 0, reward = 0\<rparr>,
                    \<lparr>address = 2, stake = 3 * 10 ^ 10, block = 0, reward = 0\<rparr>]\<rparr>"

text \<open>
  Three candidates staked at the pool's block number; the third stake is below the
  descaling unit.
\<close>

definition threePool :: Candidates where
  "threePool =
     \<lparr>number = 7, period = 30,
      selections = [\<lparr>address = 1, stake = 10 ^ 10, block = 7, reward = 0\<rparr>,
                    \<lparr>address = 2, stake = 10 ^ 10, block = 7, reward = 0\<rparr>,
                    \<lparr>address = 3, stake = 5 * 10 ^ 9, block = 7, reward = 0\<rparr>]\<rparr>"

text \<open>One hundred candidates, each with a stake of \<open>1e10\<close> at the pool's block number.\<close>

definition hundredPool :: Candidates where
  "hundredPool =
     \<lparr>number = 7, period = 30,
      selections = map (\<lambda>i. \<lparr>address = of_nat i, stake = 10 ^ 10, block = 7, reward = 0\<rparr>)
                     [0..<100]\<rparr>"

section \<open>Invariants of a selection round\<close>

text \<open>The step by which the assigned difficulty decreases.\<close>

definition DIF_R_of :: "Candidates \<Rightarrow> int" where
  "DIF_R_of cs = (DIF_MAX - DIF_MIN) div int (length (selections cs))"

text \<open>
  What holds of the shared variables throughout a round over the pool \<open>cs\<close>: the
  current level is \<open>DIF_MAX\<close> less one step for each assignment made, the assignments
  made carry the levels in that order, no more assignments and remaining chunk members
  exist than the pool has candidates up to the end of the chunk, and \<^verbatim>\<open>bc\<close> is the
  map the assignments build.
\<close>

definition round_inv :: "Candidates \<Rightarrow> 'g round \<Rightarrow> bool" where
  "round_inv cs s \<longleftrightarrow>
     DIF s = DIF_MAX - int (length (assigned s)) * DIF_R_of cs \<and>
     map snd (assigned s) = map (\<lambda>k. DIF_MAX - int k * DIF_R_of cs) [0..<length (assigned s)] \<and>
     length (assigned s) + length (selections (cp s)) \<le> min (NEXT s + 100) (length (selections cs)) \<and>
     map_of (bc s) = map_of (rev (assigned s))"

text \<open>What the invariant says about an outcome.\<close>

definition outcome_inv :: "Candidates \<Rightarrow> outcome \<Rightarrow> bool" where
  "outcome_inv cs r \<longleftrightarrow>
     map snd (ranked r) = map (\<lambda>k. DIF_MAX - int k * DIF_R_of cs) [0..<length (ranked r)] \<and>
     length (ranked r) \<le> length (selections cs) \<and>
     map_of (created r) = map_of (rev (ranked r))"

text \<open>
  A chunk in which every remaining candidate has the weight 1 and the running total is
  the number of remaining candidates.
\<close>

definition unit_weights :: "'g round \<Rightarrow> bool" where
  "unit_weights s \<longleftrightarrow>
     (\<forall>c \<in> set (selections (cp s)). scanWeight c = 1) \<and>
     total s = int (length (selections (cp s)))"

section \<open>Properties of the ledger\<close>

lemma Less_irrefl: "\<not> Less x x"
  by (simp add: Less_def)

lemma Less_total: "\<not> Less x y \<Longrightarrow> \<not> Less y x \<Longrightarrow> x = y"
  by (cases x, cases y) (auto simp: Less_def split: if_splits)

lemma not_Less_iff: "\<not> Less y x \<longleftrightarrow> spec_before x y"
  by (auto simp: Less_def spec_before_def)

lemma spec_before_trans: "spec_before x y \<Longrightarrow> spec_before y z \<Longrightarrow> spec_before x z"
  by (auto simp: spec_before_def)

lemma spec_before_antisym: "spec_before x y \<Longrightarrow> spec_before y x \<Longrightarrow> x = y"
  by (cases x, cases y) (auto simp: spec_before_def)

lemma set_insert_Less: "set (insert_Less x ys) = insert x (set ys)"
  by (induction ys) auto

lemma mset_insert_Less: "mset (insert_Less x ys) = add_mset x (mset ys)"
  by (induction ys) auto

lemma sorted_insert_Less:
  "sorted_wrt spec_before ys \<Longrightarrow> sorted_wrt spec_before (insert_Less x ys)"
proof (induction ys)
  case Nil
  then show ?case by simp
next
  case (Cons y ys)
  show ?case
  proof (cases "Less x y")
    case True
    then have xy: "spec_before x y"
      by (auto simp: Less_def spec_before_def split: if_splits)
    have "\<forall>z \<in> set ys. spec_before x z"
      using Cons.prems xy by (auto intro: spec_before_trans)
    with True xy Cons.prems show ?thesis by simp
  next
    case False
    then have yx: "spec_before y x" by (simp add: not_Less_iff)
    with False Cons show ?thesis by (auto simp: set_insert_Less)
  qed
qed

lemma mset_sort_Sort: "mset (sort_Sort kv) = mset kv"
  by (induction kv) (auto simp: sort_Sort_def mset_insert_Less)

lemma sorted_sort_Sort: "sorted_wrt spec_before (sort_Sort kv)"
  by (induction kv) (auto simp: sort_Sort_def sorted_insert_Less)

lemma sorted_spec_unique:
  "sorted_wrt spec_before xs \<Longrightarrow> sorted_wrt spec_before ys \<Longrightarrow> mset xs = mset ys \<Longrightarrow> xs = ys"
proof (induction xs arbitrary: ys)
  case Nil
  then show ?case by simp
next
  case (Cons x xs)
  from Cons.prems(3) obtain y ys' where ys: "ys = y # ys'"
    by (cases ys) auto
  have "x \<in> set ys" using Cons.prems(3) by (metis list.set_intros(1) mset_eq_setD)
  then have yx: "spec_before y x \<or> x = y"
    using Cons.prems(2) ys by auto
  have "y \<in> set (x # xs)" using Cons.prems(3) ys by (metis list.set_intros(1) mset_eq_setD)
  then have xy: "spec_before x y \<or> x = y"
    using Cons.prems(1) by auto
  from xy yx have eq: "x = y" by (auto dest: spec_before_antisym)
  with Cons.prems ys have "xs = ys'"
    by (intro Cons.IH) auto
  with eq ys show ?case by simp
qed

text \<open>
  Any sorted arrangement of the same entries is the list the model computes: the result
  of \<^verbatim>\<open>sort.Sort\<close> does not depend on the algorithm or on the map's iteration order.
\<close>

lemma sort_Sort_unique:
  "sorted_wrt spec_before ys \<Longrightarrow> mset ys = mset kv \<Longrightarrow> ys = sort_Sort kv"
  by (rule sorted_spec_unique) (simp_all add: sorted_sort_Sort mset_sort_Sort)

lemma Sort_empty_cache:
  "sortedList l = [] \<Longrightarrow> Sort l = l\<lparr>sortedList := map StkAddress (sortedInfos l)\<rparr>"
  by (simp add: Sort_def)

lemma Sort_cached: "sortedList l \<noteq> [] \<Longrightarrow> Sort l = l"
  by (simp add: Sort_def)

lemma sortedInfos_cong: "storage l' = storage l \<Longrightarrow> sortedInfos l' = sortedInfos l"
  by (simp add: sortedInfos_def)

lemma Sort_idem: "Sort (Sort l) = Sort l"
  by (simp add: Sort_def sortedInfos_def)

lemma mset_sortedInfos:
  "mset (sortedInfos l) = mset (filter (\<lambda>v. 0 < StkValue v) (map snd (storage l)))"
  by (simp add: sortedInfos_def mset_sort_Sort)

lemma sorted_sortedInfos: "sorted_wrt spec_before (sortedInfos l)"
  by (simp add: sortedInfos_def sorted_sort_Sort)

text \<open>
  The ordered list does not depend on the order in which the map is iterated.
\<close>

lemma sortedInfos_iteration_order:
  "mset (storage l') = mset (storage l) \<Longrightarrow> sortedInfos l' = sortedInfos l"
proof -
  assume "mset (storage l') = mset (storage l)"
  then have "mset (map snd (storage l')) = mset (map snd (storage l))"
    by (metis mset_map)
  then have "mset (filter (\<lambda>v. 0 < StkValue v) (map snd (storage l')))
           = mset (filter (\<lambda>v. 0 < StkValue v) (map snd (storage l)))"
    by (metis mset_filter)
  then have "mset (sortedInfos l') = mset (sortedInfos l)"
    by (simp add: mset_sortedInfos)
  then show ?thesis
    by (intro sorted_spec_unique sorted_sortedInfos)
qed

lemma keyed_New: "keyed New"
  by (simp add: keyed_def New_def)

lemma set_update_cases:
  "(a, b) \<in> set (AList.update k v al) \<Longrightarrow> (a, b) = (k, v) \<or> (a, b) \<in> set al"
  by (induction al) (auto split: if_splits)

lemma set_delete_cases:
  "(a, b) \<in> set (AList.delete k al) \<Longrightarrow> a \<noteq> k \<and> (a, b) \<in> set al"
  by (auto simp: AList.delete_eq)

lemma keyed_SetInfo: "keyed l \<Longrightarrow> keyed (SetInfo info l)"
  by (auto simp: keyed_def SetInfo_def dest!: set_update_cases set_delete_cases)

subsection \<open>The ordered list\<close>

text \<open>
  Claim C6, as stated: for every ledger state the ordered list is the list of the
  entries with a positive amount in the specified order. It fails on a ledger whose
  cached list is stale: \<^verbatim>\<open>Sort\<close> returns at once when the cached list is not empty,
  so the list still names address 2, which has no entry, and misses address 1.
\<close>

theorem Sort_stale_counterexample:
  "ToArray (Sort staleLedger) = [2] \<and> spec_ordered staleLedger = [1] \<and>
   map StkAddress (map snd (storage staleLedger)) = [1] \<and>
   ToArray (Sort staleLedger) \<noteq> spec_ordered staleLedger"
  by (simp add: staleLedger_def ToArray_def Sort_def SetInfo_def New_def sortedInfos_def
        sort_Sort_def spec_ordered_def Less_def)

text \<open>
  Claim C6, amended: when the cached ordered list is empty, \<^verbatim>\<open>Sort\<close> sets it to the
  addresses of exactly the entries with a positive amount (as a multiset of entries),
  sorted by amount descending, then stake block number ascending, then address
  descending, and no other arrangement of these entries is sorted in this way; when
  the cached list is not empty, \<^verbatim>\<open>Sort\<close> changes nothing; and
  running \<^verbatim>\<open>Sort\<close> again returns the same ledger.
\<close>

theorem Sort_ordered:
  "(sortedList l = [] \<longrightarrow>
      ToArray (Sort l) = map StkAddress (sortedInfos l) \<and>
      mset (sortedInfos l) = mset (filter (\<lambda>v. 0 < StkValue v) (map snd (storage l))) \<and>
      sorted_wrt spec_before (sortedInfos l) \<and>
      (\<forall>kv. mset kv = mset (filter (\<lambda>v. 0 < StkValue v) (map snd (storage l))) \<and>
            sorted_wrt spec_before kv \<longrightarrow> ToArray (Sort l) = map StkAddress kv)) \<and>
   (sortedList l \<noteq> [] \<longrightarrow> Sort l = l) \<and>
   Sort (Sort l) = Sort l"
proof -
  have "kv = sortedInfos l"
    if "mset kv = mset (filter (\<lambda>v. 0 < StkValue v) (map snd (storage l)))"
      and "sorted_wrt spec_before kv" for kv
    unfolding sortedInfos_def using that(2,1) by (rule sort_Sort_unique)
  then show ?thesis
    by (auto simp: Sort_idem Sort_cached Sort_empty_cache ToArray_def mset_sortedInfos
          sorted_sortedInfos)
qed

theorem Sort_ordered_witness:
  "sortedList threeStakers = [] \<and> ToArray (Sort threeStakers) = [2, 1, 3] \<and>
   sortedList (Sort threeStakers) \<noteq> [] \<and> Sort (Sort threeStakers) = Sort threeStakers"
proof -
  have e: "sortedList threeStakers = []"
    by (simp add: threeStakers_def SetInfo_def New_def)
  have s: "sortedInfos threeStakers =
      [\<lparr>StkAddress = 2, StkValue = 300, StkBlockNumber = 0\<rparr>,
       \<lparr>StkAddress = 1, StkValue = 300, StkBlockNumber = 0\<rparr>,
       \<lparr>StkAddress = 3, StkValue = 100, StkBlockNumber = 0\<rparr>]"
    by (simp add: threeStakers_def SetInfo_def New_def sortedInfos_def sort_Sort_def Less_def)
  have n: "sortedList (Sort threeStakers) \<noteq> []"
    using e s by (simp add: Sort_def)
  show ?thesis
    using Sort_ordered [of threeStakers] e s n by simp
qed

subsection \<open>Setting an amount to zero\<close>

text \<open>
  Claim C7, as stated: after \<^verbatim>\<open>SetInfo\<close> with amount 0 the address no longer appears
  in the ordered list. It fails while the cached list is kept: the entry is gone from
  \<^verbatim>\<open>storage\<close>, yet \<^verbatim>\<open>Sort\<close> and \<^verbatim>\<open>ToArray\<close> still give the address.
\<close>

theorem SetInfo_zero_counterexample:
  "map_of (storage unstakedLedger) 1 = None \<and> 1 \<in> set (ToArray (Sort unstakedLedger))"
  by (simp add: unstakedLedger_def ToArray_def Sort_def SetInfo_def New_def sortedInfos_def
        sort_Sort_def)

lemma sortedInfos_subset: "set (sortedInfos l) \<subseteq> snd ` set (storage l)"
proof -
  have "set (sortedInfos l) = set (filter (\<lambda>v. 0 < StkValue v) (map snd (storage l)))"
    using mset_sortedInfos [of l] by (metis mset_eq_setD)
  then show ?thesis by auto
qed

lemma keyed_lookup:
  "keyed l \<Longrightarrow> (k, v) \<in> set (storage l) \<Longrightarrow>
   \<exists>v'. map_of (storage l) k = Some v' \<and> StkAddress v' = k"
proof -
  assume k: "keyed l" and m: "(k, v) \<in> set (storage l)"
  from m obtain v' where v': "map_of (storage l) k = Some v'"
    by (metis weak_map_of_SomeI)
  then have "(k, v') \<in> set (storage l)" by (rule map_of_SomeD)
  with k have "StkAddress v' = k" by (auto simp: keyed_def)
  with v' show ?thesis by blast
qed

lemma added_foldl:
  "map fst (added (foldl (addCandidate states l) p xs)) =
   map fst (added p) @
   map (\<lambda>addr. StkAddress (case map_of (storage l) addr of
                              None \<Rightarrow> \<lparr>StkAddress = 0, StkValue = 0, StkBlockNumber = 0\<rparr>
                            | Some i \<Rightarrow> i)) xs"
  by (induction xs arbitrary: p) (simp_all add: addCandidate_def Let_def)

lemma signerPool_keyed:
  assumes "keyed l" and "set (sortedList l) \<subseteq> fst ` set (storage l)"
  shows "map fst (added (signerPool states l)) = sortedList l"
proof -
  have "StkAddress (case map_of (storage l) addr of
                      None \<Rightarrow> \<lparr>StkAddress = 0, StkValue = 0, StkBlockNumber = 0\<rparr>
                    | Some i \<Rightarrow> i) = addr" if "addr \<in> set (sortedList l)" for addr
  proof -
    from that assms(2) obtain v where "(addr, v) \<in> set (storage l)" by auto
    with assms(1) obtain v' where "map_of (storage l) addr = Some v'" "StkAddress v' = addr"
      using keyed_lookup by blast
    then show ?thesis by simp
  qed
  then show ?thesis
    by (simp add: signerPool_def added_foldl map_idI)
qed

lemma map_snd_enumerate_fun: "map (\<lambda>x. f (snd x)) (enumerate n xs) = map f xs"
  by (induction xs arbitrary: n) simp_all

lemma map_fst_rankInOrder: "map fst (rankInOrder cs n) = map fst (added cs)"
proof -
  have "fst ((\<lambda>(i, (a, p, z)). (a, \<lparr>Score = 500000 - int i, Rank = int i\<rparr>)) x) = fst (snd x)"
    for x :: "nat \<times> address \<times> 64 word \<times> int"
    by (cases x) auto
  then have "map fst (rankInOrder cs n) = map (\<lambda>x. fst (snd x)) (enumerate 0 (added cs))"
    by (simp add: rankInOrder_def)
  also have "\<dots> = map fst (added cs)"
    by (rule map_snd_enumerate_fun)
  finally show ?thesis .
qed

lemma ranks_pool_only_rankInOrder: "ranks_pool_only rankInOrder"
proof -
  have "fst ` set (rankInOrder cs n) = fst ` set (added cs)" for cs n
    using map_fst_rankInOrder [of cs n] by (metis set_map)
  then show ?thesis by (simp add: ranks_pool_only_def)
qed

lemma ranks_pool_only_noCreator: "ranks_pool_only noCreator"
  by (simp add: ranks_pool_only_def noCreator_def)

lemma selectSigner_table:
  assumes "sortedList l = []" and "table l = []"
  shows "table (selectSigner BlockCreator states n l) =
           (if sortedList (Sort l) = [] then []
            else BlockCreator (signerPool states (Sort l)) n)"
  using assms by (simp add: selectSigner_def Sort_def Let_def)

text \<open>
  Claim C7, amended: for a ledger whose entries are stored under their own addresses
  (every ledger built with \<^verbatim>\<open>SetInfo\<close>), \<^verbatim>\<open>SetInfo\<close> with an amount of 0 or less
  removes the entry from \<^verbatim>\<open>storage\<close> and leaves the cached ordered list and the cached
  table as they were; once the caches have been cleared with \<^verbatim>\<open>ClearTable\<close>, the
  address appears neither in the list that \<^verbatim>\<open>Sort\<close> and \<^verbatim>\<open>ToArray\<close> give nor in the
  next round's schedule: it is not among the candidates of the round, it is not in the
  table that \<^verbatim>\<open>selectSigner\<close> stores, for every selection routine that ranks members
  of its pool only, and \<^verbatim>\<open>GetDifficultyAndRank\<close> answers for it with the default or
  with the unranked result. No call of \<^verbatim>\<open>Delete\<close> is needed.
\<close>

theorem SetInfo_zero_removes:
  assumes "keyed l" and "StkValue info \<le> 0" and "ranks_pool_only BlockCreator"
  shows "map_of (storage (SetInfo info l)) (StkAddress info) = None \<and>
         sortedList (SetInfo info l) = sortedList l \<and>
         table (SetInfo info l) = table l \<and>
         StkAddress info \<notin> set (ToArray (Sort (ClearTable (SetInfo info l)))) \<and>
         StkAddress info \<notin>
           fst ` set (added (signerPool states (Sort (ClearTable (SetInfo info l))))) \<and>
         StkAddress info \<notin>
           fst ` set (table (selectSigner BlockCreator states n (ClearTable (SetInfo info l)))) \<and>
         fst (GetDifficultyAndRank BlockCreator states (StkAddress info) n
                (ClearTable (SetInfo info l)))
           \<in> {(1234, 1, False), (0, - 1, True)}"
proof -
  let ?a = "StkAddress info"
  let ?l' = "ClearTable (SetInfo info l)"
  have st: "storage ?l' = AList.delete ?a (storage l)"
    using assms(2) by (simp add: ClearTable_def SetInfo_def)
  have k': "keyed ?l'"
    using keyed_SetInfo [OF assms(1), of info] by (simp add: keyed_def ClearTable_def)
  have sl: "sortedList (Sort ?l') = map StkAddress (sortedInfos ?l')"
    by (simp add: Sort_def ClearTable_def)
  have st2: "storage (Sort ?l') = storage ?l'"
    by (simp add: Sort_def)
  have sub: "set (sortedList (Sort ?l')) \<subseteq> fst ` set (storage ?l')"
  proof
    fix x assume "x \<in> set (sortedList (Sort ?l'))"
    then obtain v where v: "v \<in> set (sortedInfos ?l')" and x: "x = StkAddress v"
      using sl by auto
    from v sortedInfos_subset obtain k where kv: "(k, v) \<in> set (storage ?l')"
      by fastforce
    with k' have "StkAddress v = k" by (auto simp: keyed_def)
    with kv x show "x \<in> fst ` set (storage ?l')" by force
  qed
  have notin: "?a \<notin> fst ` set (storage ?l')"
    unfolding st by (rule delete_notin_dom)
  have 1: "map_of (storage (SetInfo info l)) ?a = None"
    using assms(2) by (simp add: SetInfo_def delete_conv')
  have 2: "sortedList (SetInfo info l) = sortedList l" "table (SetInfo info l) = table l"
    by (simp_all add: SetInfo_def)
  have 3: "?a \<notin> set (ToArray (Sort ?l'))"
    using sub notin by (auto simp: ToArray_def)
  have k'': "keyed (Sort ?l')"
    using k' st2 by (simp add: keyed_def)
  have "map fst (added (signerPool states (Sort ?l'))) = sortedList (Sort ?l')"
    using k'' sub st2 by (intro signerPool_keyed) simp_all
  then have pool: "fst ` set (added (signerPool states (Sort ?l'))) = set (sortedList (Sort ?l'))"
    by (metis set_map)
  with sub notin have 4: "?a \<notin> fst ` set (added (signerPool states (Sort ?l')))"
    by auto
  have tb: "table (selectSigner BlockCreator states n ?l') =
              (if sortedList (Sort ?l') = [] then []
               else BlockCreator (signerPool states (Sort ?l')) n)"
    by (rule selectSigner_table) (simp_all add: ClearTable_def)
  have "fst ` set (BlockCreator (signerPool states (Sort ?l')) n)
          \<subseteq> fst ` set (added (signerPool states (Sort ?l')))"
    using assms(3) by (simp add: ranks_pool_only_def)
  with 4 tb have 5: "?a \<notin> fst ` set (table (selectSigner BlockCreator states n ?l'))"
    by auto
  then have none: "map_of (table (selectSigner BlockCreator states n ?l')) ?a = None"
    by (simp add: map_of_eq_None_iff)
  have "table ?l' = []" by (simp add: ClearTable_def)
  then have 6: "fst (GetDifficultyAndRank BlockCreator states ?a n ?l')
                  \<in> {(1234, 1, False), (0, - 1, True)}"
    using none by (simp add: GetDifficultyAndRank_def)
  from 1 2 3 4 5 6 show ?thesis by simp
qed

theorem SetInfo_zero_removes_witness:
  "keyed (Sort (SetInfo \<lparr>StkAddress = 1, StkValue = 5, StkBlockNumber = 0\<rparr> threeStakers)) \<and>
   ranks_pool_only rankInOrder \<and>
   ToArray (Sort (SetInfo \<lparr>StkAddress = 1, StkValue = 5, StkBlockNumber = 0\<rparr> threeStakers))
     = [2, 3, 1] \<and>
   table (selectSigner rankInOrder noState 42
     (ClearTable (SetInfo \<lparr>StkAddress = 1, StkValue = 0, StkBlockNumber = 9\<rparr>
        (Sort (SetInfo \<lparr>StkAddress = 1, StkValue = 5, StkBlockNumber = 0\<rparr> threeStakers)))))
     = [(2, \<lparr>Score = 500000, Rank = 0\<rparr>), (3, \<lparr>Score = 499999, Rank = 1\<rparr>)] \<and>
   1 \<notin> fst ` set (table (selectSigner rankInOrder noState 42
     (ClearTable (SetInfo \<lparr>StkAddress = 1, StkValue = 0, StkBlockNumber = 9\<rparr>
        (Sort (SetInfo \<lparr>StkAddress = 1, StkValue = 5, StkBlockNumber = 0\<rparr> threeStakers)))))) \<and>
   fst (GetDifficultyAndRank rankInOrder noState 1 42
     (ClearTable (SetInfo \<lparr>StkAddress = 1, StkValue = 0, StkBlockNumber = 9\<rparr>
        (Sort (SetInfo \<lparr>StkAddress = 1, StkValue = 5, StkBlockNumber = 0\<rparr> threeStakers)))))
     = (0, - 1, True)"
proof -
  let ?l = "Sort (SetInfo \<lparr>StkAddress = 1, StkValue = 5, StkBlockNumber = 0\<rparr> threeStakers)"
  let ?info = "\<lparr>StkAddress = 1, StkValue = 0, StkBlockNumber = 9\<rparr>"
  have k: "keyed ?l"
    by (simp add: keyed_def threeStakers_def Sort_def SetInfo_def New_def)
  have v: "StkValue ?info \<le> 0" by simp
  have a: "ToArray ?l = [2, 3, 1]"
    by (simp add: threeStakers_def ToArray_def Sort_def SetInfo_def New_def sortedInfos_def
          sort_Sort_def Less_def)
  have t: "table (selectSigner rankInOrder noState 42 (ClearTable (SetInfo ?info ?l)))
           = [(2, \<lparr>Score = 500000, Rank = 0\<rparr>), (3, \<lparr>Score = 499999, Rank = 1\<rparr>)]"
    by (simp add: threeStakers_def selectSigner_def ClearTable_def Sort_def SetInfo_def New_def
          sortedInfos_def sort_Sort_def Less_def signerPool_def addCandidate_def rankInOrder_def
          noState_def Uint64_def)
  have g: "fst (GetDifficultyAndRank rankInOrder noState 1 42 (ClearTable (SetInfo ?info ?l)))
           = (0, - 1, True)"
    using t by (simp add: GetDifficultyAndRank_def ClearTable_def)
  show ?thesis
    using SetInfo_zero_removes [OF k v ranks_pool_only_rankInOrder, of noState 42] k a t g
      ranks_pool_only_rankInOrder
    by simp
qed

subsection \<open>The read path\<close>

lemma Sort_no_stakers:
  assumes "sortedList l = []" and "\<forall>v \<in> set (map snd (storage l)). StkValue v \<le> 0"
  shows "Sort l = l"
proof -
  have "filter (\<lambda>v. 0 < StkValue v) (map snd (storage l)) = []"
    using assms(2) by (auto simp: filter_empty_conv)
  then have "sortedInfos l = []"
    by (simp add: sortedInfos_def sort_Sort_def)
  then have "Sort l = l\<lparr>sortedList := []\<rparr>"
    using assms(1) by (simp add: Sort_def)
  also have "\<dots> = l"
    using assms(1) by (cases l) simp
  finally show ?thesis .
qed

text \<open>
  Claim C9, as stated: every ledger with zero staked addresses gets the default. It
  fails when a cache is stale. In \<open>withdrawnLedger\<close> no address is staked, but the
  cached table is not empty and is answered from: address 1 still has difficulty 500000
  and rank 0. In \<open>unstakedLedger\<close> no address is staked and the table is empty, but
  the cached ordered list still names address 1; \<^verbatim>\<open>selectSigner\<close> reads the missing
  entry as the zero \<^verbatim>\<open>stkInfo\<close> and hands the zero address to the selection routine,
  whose table is then answered from.
\<close>

theorem GetDifficultyAndRank_stale_counterexample:
  "storage withdrawnLedger = [] \<and>
   GetDifficultyAndRank noCreator noState 1 42 withdrawnLedger
     = ((500000, 0, False), withdrawnLedger) \<and>
   storage unstakedLedger = [] \<and> table unstakedLedger = [] \<and>
   fst (GetDifficultyAndRank rankInOrder noState 0 42 unstakedLedger) = (500000, 0, True)"
  by (simp add: withdrawnLedger_def scheduledLedger_def unstakedLedger_def SetInfo_def
        Sort_def New_def sortedInfos_def sort_Sort_def GetDifficultyAndRank_def
        selectSigner_def signerPool_def addCandidate_def rankInOrder_def noState_def
        Uint64_def)

text \<open>
  Claim C9, amended: for every ledger with zero staked addresses whose cached ordered
  list and cached table are empty, \<^verbatim>\<open>GetDifficultyAndRank\<close> returns difficulty 1234,
  rank 1 and the flag false, for every address, block height, external state and
  selection routine, and leaves the ledger unchanged. The same three values are
  returned whenever the cached table is empty and the selection round produces an
  empty table.
\<close>

theorem GetDifficultyAndRank_empty_pool:
  "((\<forall>v \<in> set (map snd (storage l)). StkValue v \<le> 0) \<and> sortedList l = [] \<and> table l = []
      \<longrightarrow> GetDifficultyAndRank BlockCreator states addr blockNumber l = ((1234, 1, False), l)) \<and>
   (table l = [] \<and> table (selectSigner BlockCreator states blockNumber l) = []
      \<longrightarrow> GetDifficultyAndRank BlockCreator states addr blockNumber l
            = ((1234, 1, False), selectSigner BlockCreator states blockNumber l))"
proof (intro conjI impI)
  assume "(\<forall>v \<in> set (map snd (storage l)). StkValue v \<le> 0) \<and> sortedList l = [] \<and> table l = []"
  then show "GetDifficultyAndRank BlockCreator states addr blockNumber l = ((1234, 1, False), l)"
    by (simp add: GetDifficultyAndRank_def selectSigner_def Sort_no_stakers)
next
  assume "table l = [] \<and> table (selectSigner BlockCreator states blockNumber l) = []"
  then show "GetDifficultyAndRank BlockCreator states addr blockNumber l
             = ((1234, 1, False), selectSigner BlockCreator states blockNumber l)"
    by (simp add: GetDifficultyAndRank_def)
qed

theorem GetDifficultyAndRank_empty_pool_witness:
  "storage (ClearTable unstakedLedger) = [] \<and> sortedList (ClearTable unstakedLedger) = [] \<and>
   table (ClearTable unstakedLedger) = [] \<and>
   GetDifficultyAndRank rankInOrder noState 7 42 (ClearTable unstakedLedger)
     = ((1234, 1, False), ClearTable unstakedLedger) \<and>
   table threeStakers = [] \<and>
   selectSigner noCreator noState 42 threeStakers = threeStakers\<lparr>sortedList := [2, 1, 3]\<rparr> \<and>
   GetDifficultyAndRank noCreator noState 7 42 threeStakers
     = ((1234, 1, False), threeStakers\<lparr>sortedList := [2, 1, 3]\<rparr>)"
proof -
  have 0: "storage (ClearTable unstakedLedger) = []"
    by (simp add: unstakedLedger_def ClearTable_def Sort_def SetInfo_def New_def)
  have 1: "\<forall>v \<in> set (map snd (storage (ClearTable unstakedLedger))). StkValue v \<le> 0"
    by (simp add: 0)
  have 2: "sortedList (ClearTable unstakedLedger) = []" by (simp add: ClearTable_def)
  have 3: "table (ClearTable unstakedLedger) = []" by (simp add: ClearTable_def)
  have 4: "table threeStakers = []"
    by (simp add: threeStakers_def SetInfo_def New_def)
  have 5: "selectSigner noCreator noState 42 threeStakers = threeStakers\<lparr>sortedList := [2, 1, 3]\<rparr>"
    by (simp add: selectSigner_def Sort_def threeStakers_def SetInfo_def New_def sortedInfos_def
          sort_Sort_def Less_def noCreator_def)
  have 6: "table (selectSigner noCreator noState 42 threeStakers) = []"
    by (simp add: 5 4)
  show ?thesis
    using GetDifficultyAndRank_empty_pool [of "ClearTable unstakedLedger" rankInOrder noState 7 42]
      GetDifficultyAndRank_empty_pool [of threeStakers noCreator noState 7 42]
      0 1 2 3 4 5 6
    by simp
qed

text \<open>
  Whatever the ledger holds, the default is returned when the table is empty after the
  selection step.
\<close>

lemma GetDifficultyAndRank_default_when_table_empty:
  "table (snd (GetDifficultyAndRank BlockCreator states addr blockNumber l)) = [] \<Longrightarrow>
   fst (GetDifficultyAndRank BlockCreator states addr blockNumber l) = (1234, 1, False)"
  by (simp add: GetDifficultyAndRank_def Let_def split: if_splits prod.splits)

text \<open>
  Claim C10: when the cached table is not empty and does not hold the address,
  \<^verbatim>\<open>GetDifficultyAndRank\<close> returns difficulty 0 and rank -1 (with the flag false, as
  nothing was recomputed); no error and no fault is possible on this path, and the
  ledger is unchanged.
\<close>

theorem GetDifficultyAndRank_unranked:
  assumes "table l \<noteq> []" and "map_of (table l) addr = None"
  shows "GetDifficultyAndRank BlockCreator states addr blockNumber l = ((0, - 1, False), l)"
  using assms by (simp add: GetDifficultyAndRank_def)

theorem GetDifficultyAndRank_unranked_witness:
  "table scheduledLedger \<noteq> [] \<and> map_of (table scheduledLedger) 2 = None \<and>
   GetDifficultyAndRank noCreator noState 2 42 scheduledLedger = ((0, - 1, False), scheduledLedger)"
proof -
  have 1: "table scheduledLedger \<noteq> []" by (simp add: scheduledLedger_def)
  have 2: "map_of (table scheduledLedger) 2 = None" by (simp add: scheduledLedger_def)
  show ?thesis
    using GetDifficultyAndRank_unranked [OF 1 2, of noCreator noState 42] 1 2 by simp
qed

(*CODEC_THMS*)

section \<open>Properties of the selection round\<close>

subsection \<open>Conversions\<close>

lemma Int64_small: "0 \<le> x \<Longrightarrow> x < 2 ^ 63 \<Longrightarrow> Int64 x = x"
  unfolding Int64_def
  by (simp add: sint_sbintrunc' signed_take_bit_int_eq_self)

subsection \<open>The seed\<close>

lemma low_byte_mask: "(255 :: 64 word) = mask 8"
  by (simp add: mask_eq_exp_minus_1)

lemma seedInput_low_byte: "seedInput (n AND 255) = seedInput n"
proof -
  have "(ucast (n AND 255) :: byte) = ucast n"
    unfolding low_byte_mask by (rule bit_word_eqI) (auto simp: bit_simps)
  then show ?thesis by (simp add: seedInput_def)
qed

text \<open>The seed depends on the low byte of the height only: it has at most 256 values.\<close>

lemma GetSeed_low_byte: "GetSeed E (n AND 255) = GetSeed E n"
  by (simp add: GetSeed_def seedInput_low_byte)

lemma seedInput_256: "seedInput 256 = seedInput 0"
  by (simp add: seedInput_def)

text \<open>
  Claim C2 on the code: the bytes given to the hash are the low byte of the height, not
  its big-endian encoding. Heights 0 and 256 have different encodings and give the hash
  the same input, hence the same seed, whatever the hash function is.
\<close>

theorem GetSeed_collision:
  "bigEndian64 256 \<noteq> bigEndian64 0 \<and> seedInput 256 = seedInput 0 \<and>
   GetSeed E 256 = GetSeed E 0"
  by (simp add: bigEndian64_def GetSeed_def seedInput_256)

subsection \<open>Weights\<close>

text \<open>
  Claim C3 on the code: \<^verbatim>\<open>TotalStakeBalance\<close> sums the stakes weighted by the
  advantage, while \<^verbatim>\<open>selector\<close> and \<^verbatim>\<open>loop\<close> subtract the plain stake. For two
  candidates with full advantage the total is 8 and the weights subtracted are 1 and 3;
  a draw of 0, 1, 2 or 3 selects nobody.
\<close>

theorem scan_weight_without_advantage:
  "map (advStake (fullAdvantage E) agedPool) (selections agedPool) = [2 * 10 ^ 10, 6 * 10 ^ 10] \<and>
   TotalStakeBalance (fullAdvantage E) agedPool = 8 \<and>
   map scanWeight (selections agedPool) = [1, 3] \<and>
   scan (selections agedPool) 0 8 3 = Inl ''empty SRT'' \<and>
   scan (selections agedPool) 0 8 4 = Inr (1, 2)"
  by (simp add: fullAdvantage_def agedPool_def advStake_def TotalStakeBalance_def
        scanWeight_def)

subsection \<open>The invariant of a round\<close>

lemma scan_index:
  "scan xs i temp v = Inr (k, a) \<Longrightarrow> i \<le> k \<and> k - i < length xs \<and> a = address (xs ! (k - i))"
proof (induction xs arbitrary: i temp)
  case Nil
  then show ?case by simp
next
  case (Cons s rest)
  show ?case
  proof (cases "v < temp - scanWeight s")
    case True
    with Cons.prems have "scan rest (Suc i) (temp - scanWeight s) v = Inr (k, a)"
      by (simp add: Let_def)
    from Cons.IH [OF this] have "Suc i \<le> k" "k - Suc i < length rest"
      "a = address (rest ! (k - Suc i))" by auto
    moreover from \<open>Suc i \<le> k\<close> have "k - i = Suc (k - Suc i)" by simp
    ultimately show ?thesis by simp
  next
    case False
    with Cons.prems show ?thesis by (simp add: Let_def)
  qed
qed

lemma selector_index:
  "selector s v = Inr (key, addr) \<Longrightarrow> key < length (selections (cp s))"
  using scan_index [of "selections (cp s)" 0 "total s" v key addr]
  by (simp add: selector_def)

lemma length_removeSlice: "i < length cs \<Longrightarrow> length (removeSlice cs i) = length cs - 1"
  by (simp add: removeSlice_def)

lemma round_inv_rng: "round_inv cs (s\<lparr>rng := g\<rparr>) = round_inv cs s"
  by (simp add: round_inv_def)

lemma loop_inv:
  assumes "round_inv cs s"
  shows "round_inv cs (loop (DIF_R_of cs) s v)"
proof (cases "selector s v")
  case (Inl err)
  with assms show ?thesis by (simp add: loop_def)
next
  case (Inr r)
  obtain key addr where r: "r = (key, addr)" by (cases r)
  with Inr have sel: "selector s v = Inr (key, addr)" by simp
  then have key: "key < length (selections (cp s))" by (rule selector_index)
  let ?n = "length (assigned s)"
  have d: "(if DIF s = DIF_MAX then DIF_MAX else DIF s) = DIF s" by simp
  have upd: "loop (DIF_R_of cs) s v =
      s\<lparr>bc := AList.update addr (DIF s) (bc s),
        assigned := assigned s @ [(addr, DIF s)],
        DIF := DIF s - DIF_R_of cs,
        total := total s - scanWeight (selections (cp s) ! key),
        cp := (cp s)\<lparr>selections := removeSlice (selections (cp s)) key\<rparr>\<rparr>"
    using sel by (simp add: loop_def Let_def)
  from assms have
    i1: "DIF s = DIF_MAX - int ?n * DIF_R_of cs" and
    i2: "map snd (assigned s) = map (\<lambda>k. DIF_MAX - int k * DIF_R_of cs) [0..<?n]" and
    i3: "?n + length (selections (cp s)) \<le> min (NEXT s + 100) (length (selections cs))" and
    i4: "map_of (bc s) = map_of (rev (assigned s))"
    by (simp_all add: round_inv_def)
  have j1: "DIF s - DIF_R_of cs = DIF_MAX - int (Suc ?n) * DIF_R_of cs"
    using i1 by (simp add: algebra_simps)
  have j2: "map snd (assigned s @ [(addr, DIF s)]) =
            map (\<lambda>k. DIF_MAX - int k * DIF_R_of cs) [0..<Suc ?n]"
    using i1 i2 by simp
  have j3: "Suc ?n + length (removeSlice (selections (cp s)) key)
            \<le> min (NEXT s + 100) (length (selections cs))"
    using i3 key length_removeSlice [of key "selections (cp s)"] by arith
  have j4: "map_of (AList.update addr (DIF s) (bc s)) = map_of (rev (assigned s @ [(addr, DIF s)]))"
    using i4 by (simp add: update_conv')
  show ?thesis
    unfolding upd round_inv_def using j1 j2 j3 j4 by simp
qed

lemma nextCandidate_Val:
  assumes "nextCandidate cs idx = Val c"
  shows "idx < length (selections cs) \<and>
         length (selections c) = min 100 (length (selections cs) - idx)"
proof -
  from assms have le: "\<not> length (selections cs) < idx"
    by (auto simp: nextCandidate_def split: if_splits)
  from assms le have ne: "length (drop idx (selections cs)) \<noteq> 0"
    by (auto simp: nextCandidate_def Let_def split: if_splits)
  from assms le ne have "length (selections c) = min 100 (length (selections cs) - idx)"
    by (auto simp: nextCandidate_def NewCandidates_def Let_def split: if_splits)
  with ne show ?thesis by simp
qed

lemma refill_inv:
  assumes "round_inv cs s" and "refill E cs s = (st, s1)"
  shows "round_inv cs s1"
proof (cases "length (selections (cp s)) = 0")
  case False
  with assms show ?thesis by (simp add: refill_def)
next
  case True
  let ?s' = "s\<lparr>NEXT := NEXT s + 100\<rparr>"
  from assms(1) True have a: "length (assigned s) \<le> min (NEXT s + 100) (length (selections cs))"
    by (simp add: round_inv_def)
  have inv': "round_inv cs ?s'"
    using assms(1) True by (simp add: round_inv_def)
  show ?thesis
  proof (cases "nextCandidate cs (NEXT s + 100)")
    case (Val c)
    from nextCandidate_Val [OF Val] have
      lt: "NEXT s + 100 < length (selections cs)" and
      len: "length (selections c) = min 100 (length (selections cs) - (NEXT s + 100))"
      by simp_all
    from assms(2) True Val have s1: "s1 = ?s'\<lparr>cp := c, total := TotalStakeBalance E c\<rparr>"
      by (simp add: refill_def Let_def)
    have "length (assigned s) + length (selections c)
          \<le> min (NEXT s + 100 + 100) (length (selections cs))"
      using a lt len by arith
    with assms(1) show ?thesis
      unfolding s1 by (simp add: round_inv_def)
  next
    case (Err e)
    with assms(2) True have "s1 = ?s'" by (simp add: refill_def Let_def)
    with inv' show ?thesis by simp
  next
    case (Panic f)
    with assms(2) True have "s1 = ?s'" by (simp add: refill_def Let_def)
    with inv' show ?thesis by simp
  qed
qed

lemma sampling_inv:
  "round_inv cs s \<Longrightarrow> sampling E cs (DIF_R_of cs) fuel s = (st, s') \<Longrightarrow> round_inv cs s'"
proof (induction fuel arbitrary: s)
  case 0
  then show ?case by simp
next
  case (Suc fuel)
  obtain r s1 where rf: "refill E cs s = (r, s1)" by (cases "refill E cs s")
  have inv1: "round_inv cs s1" using Suc.prems(1) rf by (rule refill_inv)
  show ?case
  proof (cases r)
    case (Some st0)
    with Suc.prems(2) rf have "s' = s1" by simp
    with inv1 show ?thesis by simp
  next
    case None
    show ?thesis
    proof (cases "total s1 = 0")
      case True
      with Suc.prems(2) rf None have "s' = s1" by simp
      with inv1 show ?thesis by simp
    next
      case False
      show ?thesis
      proof (cases "Int63n E (rng s1) (Int64 (total s1))")
        case (Inl f)
        with Suc.prems(2) rf None False have "s' = s1" by simp
        with inv1 show ?thesis by simp
      next
        case (Inr p)
        obtain v g where p: "p = (v, g)" by (cases p)
        with Suc.prems(2) rf None False Inr have
          rec: "sampling E cs (DIF_R_of cs) fuel (loop (DIF_R_of cs) (s1\<lparr>rng := g\<rparr>) v) = (st, s')"
          by simp
        have "round_inv cs (loop (DIF_R_of cs) (s1\<lparr>rng := g\<rparr>) v)"
          using inv1 by (intro loop_inv) (simp add: round_inv_rng)
        from Suc.IH [OF this rec] show ?thesis .
      qed
    qed
  qed
qed

lemma round_inv_start:
  assumes "nextCandidate cs NEXT0 = Val cp0"
  shows "round_inv cs \<lparr>cp = cp0, total = t, DIF = DIF_MAX, bc = [], NEXT = NEXT0, rng = g,
                       assigned = []\<rparr>"
proof -
  from nextCandidate_Val [OF assms] have
    "length (selections cp0) \<le> min (NEXT0 + 100) (length (selections cs))" by arith
  then show ?thesis by (simp add: round_inv_def)
qed

lemma GetBlockCreator_inv: "outcome_inv cs (GetBlockCreator E NEXT0 cs n fuel)"
proof (cases "nextCandidate cs NEXT0")
  case (Val cp0)
  show ?thesis
  proof (cases "length (selections cs) = 0")
    case True
    with Val show ?thesis by (simp add: GetBlockCreator_def outcome_inv_def)
  next
    case False
    let ?s0 = "\<lparr>cp = cp0, total = TotalStakeBalance E cp0, DIF = DIF_MAX, bc = [],
                NEXT = NEXT0, rng = rand_Seed E (GetSeed E n), assigned = []\<rparr>"
    obtain st s' where run: "sampling E cs (DIF_R_of cs) fuel ?s0 = (st, s')"
      by (cases "sampling E cs (DIF_R_of cs) fuel ?s0")
    have "round_inv cs s'"
      using round_inv_start [OF Val] run by (rule sampling_inv)
    then have "outcome_inv cs (outcome_of (st, s'))"
      by (simp add: outcome_inv_def outcome_of_def round_inv_def)
    moreover have "GetBlockCreator E NEXT0 cs n fuel = outcome_of (st, s')"
      using Val False run by (simp add: GetBlockCreator_def DIF_R_of_def Let_def)
    ultimately show ?thesis by simp
  qed
next
  case (Err e)
  then show ?thesis by (simp add: GetBlockCreator_def outcome_inv_def)
next
  case (Panic f)
  then show ?thesis by (simp add: GetBlockCreator_def outcome_inv_def)
qed

subsection \<open>Difficulty levels\<close>

lemma DIF_R_nonneg: "0 \<le> DIF_R_of cs"
proof -
  have "(0::int) \<le> 490000 div int (length (selections cs))"
    by (rule div_int_pos_iff [THEN iffD2]) simp
  then show ?thesis
    by (simp add: DIF_R_of_def DIF_MAX_def DIF_MIN_def)
qed

lemma DIF_R_times: "k \<le> length (selections cs) \<Longrightarrow> int k * DIF_R_of cs \<le> DIF_MAX - DIF_MIN"
proof -
  assume k: "k \<le> length (selections cs)"
  let ?n = "int (length (selections cs))"
  have "int k * DIF_R_of cs \<le> ?n * DIF_R_of cs"
    using k DIF_R_nonneg [of cs] by (intro mult_right_mono) simp_all
  also have "\<dots> = (DIF_MAX - DIF_MIN) - (DIF_MAX - DIF_MIN) mod ?n"
    by (simp add: DIF_R_of_def minus_mod_eq_mult_div)
  also have "\<dots> \<le> DIF_MAX - DIF_MIN"
  proof (cases "?n = 0")
    case True
    then show ?thesis by (simp add: DIF_MAX_def DIF_MIN_def)
  next
    case False
    then have "0 \<le> (DIF_MAX - DIF_MIN) mod ?n" by simp
    then show ?thesis by simp
  qed
  finally show ?thesis .
qed

text \<open>
  Claim C5: in the order of assignment, the difficulties that a call of
  \<^verbatim>\<open>GetBlockCreator\<close> assigns start at \<open>DIF_MAX\<close>, each is the one before less
  \<open>(DIF_MAX - DIF_MIN) / len(cs.selections)\<close>, they never increase, and none is below
  \<open>DIF_MIN\<close> or above \<open>DIF_MAX\<close>; the map \<^verbatim>\<open>bc\<close> is the map these assignments
  build. This holds of every call, however it ends.
\<close>

theorem difficulty_monotone:
  "let r = GetBlockCreator E NEXT0 cs n fuel; ds = map snd (ranked r) in
     ds = map (\<lambda>k. DIF_MAX - int k * ((DIF_MAX - DIF_MIN) div int (length (selections cs))))
            [0..<length ds] \<and>
     (ds \<noteq> [] \<longrightarrow> hd ds = DIF_MAX) \<and>
     sorted_wrt (\<lambda>a b. b \<le> a) ds \<and>
     (\<forall>d \<in> set ds. DIF_MIN \<le> d \<and> d \<le> DIF_MAX) \<and>
     map_of (created r) = map_of (rev (ranked r))"
proof -
  define r where "r = GetBlockCreator E NEXT0 cs n fuel"
  define ds where "ds = map snd (ranked r)"
  have inv: "outcome_inv cs r"
    unfolding r_def by (rule GetBlockCreator_inv)
  then have ds: "ds = map (\<lambda>k. DIF_MAX - int k * DIF_R_of cs) [0..<length ds]"
    and len: "length ds \<le> length (selections cs)"
    and m: "map_of (created r) = map_of (rev (ranked r))"
    by (simp_all add: outcome_inv_def ds_def)
  have nth: "ds ! k = DIF_MAX - int k * DIF_R_of cs" if "k < length ds" for k
  proof -
    have "ds ! k = map (\<lambda>k. DIF_MAX - int k * DIF_R_of cs) [0..<length ds] ! k"
      using ds by simp
    also have "\<dots> = DIF_MAX - int k * DIF_R_of cs"
      using that by simp
    finally show ?thesis .
  qed
  have hd: "ds \<noteq> [] \<longrightarrow> hd ds = DIF_MAX"
  proof
    assume "ds \<noteq> []"
    then have "hd ds = ds ! 0" by (simp add: hd_conv_nth)
    also have "\<dots> = DIF_MAX" using \<open>ds \<noteq> []\<close> nth [of 0] by simp
    finally show "hd ds = DIF_MAX" .
  qed
  have srt: "sorted_wrt (\<lambda>a b. b \<le> a) ds"
  proof -
    have "ds ! j \<le> ds ! i" if "i < j" "j < length ds" for i j
    proof -
      have "int i * DIF_R_of cs \<le> int j * DIF_R_of cs"
        using that DIF_R_nonneg [of cs] by (intro mult_right_mono) simp_all
      with that show ?thesis by (simp add: nth)
    qed
    then show ?thesis by (simp add: sorted_wrt_iff_nth_less)
  qed
  have bnd: "\<forall>d \<in> set ds. DIF_MIN \<le> d \<and> d \<le> DIF_MAX"
  proof
    fix d assume "d \<in> set ds"
    then obtain k where k: "k < length ds" and d: "d = ds ! k"
      by (auto simp: in_set_conv_nth)
    have "int k * DIF_R_of cs \<le> DIF_MAX - DIF_MIN"
      using k len by (intro DIF_R_times) simp
    moreover have "0 \<le> int k * DIF_R_of cs"
      using DIF_R_nonneg [of cs] by simp
    ultimately show "DIF_MIN \<le> d \<and> d \<le> DIF_MAX"
      using k d by (simp add: nth)
  qed
  from ds hd srt bnd m show ?thesis
    unfolding Let_def r_def [symmetric] ds_def [symmetric] DIF_R_of_def [symmetric]
    by simp
qed

theorem difficulty_monotone_witness:
  "GetBlockCreator sampleEnv 0 threePool 7 10 =
     \<lparr>ended = Returned, created = [(1, 500000), (2, 336667)], NEXT_after = 0,
      ranked = [(1, 500000), (2, 336667)]\<rparr> \<and>
   (336667 :: int) = DIF_MAX - 1 * ((DIF_MAX - DIF_MIN) div 3) \<and>
   sorted_wrt (\<lambda>a b. b \<le> a) [500000, 336667 :: int] \<and>
   DIF_MIN \<le> 336667 \<and> 500000 \<le> DIF_MAX"
proof -
  have run: "GetBlockCreator sampleEnv 0 threePool 7 10 =
     \<lparr>ended = Returned, created = [(1, 500000), (2, 336667)], NEXT_after = 0,
      ranked = [(1, 500000), (2, 336667)]\<rparr>"
    by code_simp
  show ?thesis
    using difficulty_monotone [of sampleEnv 0 threePool 7 10] run
    by (simp add: DIF_MAX_def DIF_MIN_def)
qed

subsection \<open>Faults and the package variable NEXT\<close>

text \<open>
  Claim C4 on the code: a pool with one candidate. The candidate is drawn, the chunk is
  empty, \<^verbatim>\<open>NEXT\<close> becomes 100 and \<^verbatim>\<open>cs.selections[100:]\<close> is evaluated on a slice of
  length 1: the call panics, for every hash function and every generator.
\<close>

theorem single_candidate_panics:
  "GetBlockCreator (zeroAdvantage E) 0 singlePool n (Suc (Suc fuel)) =
     \<lparr>ended = Panicked slice_bounds_out_of_range, created = [(1, 500000)],
      NEXT_after = 100, ranked = [(1, 500000)]\<rparr>"
  by (simp add: GetBlockCreator_def nextCandidate_def singlePool_def NewCandidates_def
        zeroAdvantage_def TotalStakeBalance_def advStake_def refill_def Int63n_def
        Int64_small loop_def selector_def scanWeight_def removeSlice_def outcome_of_def
        DIF_MAX_def DIF_MIN_def Let_def split: prod.splits)

text \<open>
  The same fault in general: whenever the chunk is empty and \<^verbatim>\<open>NEXT + 100\<close> is beyond
  the end of the pool, the next iteration of the sampling loop panics.
\<close>

lemma refill_past_end:
  "selections (cp s) = [] \<Longrightarrow> length (selections cs) < NEXT s + 100 \<Longrightarrow>
   refill E cs s = (Some (Panicked slice_bounds_out_of_range), s\<lparr>NEXT := NEXT s + 100\<rparr>)"
  by (simp add: refill_def nextCandidate_def Let_def)

lemma sampling_past_end:
  "selections (cp s) = [] \<Longrightarrow> length (selections cs) < NEXT s + 100 \<Longrightarrow>
   sampling E cs R (Suc fuel) s = (Panicked slice_bounds_out_of_range, s\<lparr>NEXT := NEXT s + 100\<rparr>)"
  by (simp add: refill_past_end)

lemma scan_unit_weights:
  "\<forall>c \<in> set xs. scanWeight c = 1 \<Longrightarrow> v < temp \<Longrightarrow> temp \<le> v + int (length xs) \<Longrightarrow>
   \<exists>k a. scan xs i temp v = Inr (k, a)"
proof (induction xs arbitrary: i temp)
  case Nil
  then show ?case by simp
next
  case (Cons s rest)
  show ?case
  proof (cases "v < temp - 1")
    case True
    have "\<exists>k a. scan rest (Suc i) (temp - 1) v = Inr (k, a)"
      using Cons.prems True by (intro Cons.IH) simp_all
    with Cons.prems True show ?thesis by (simp add: Let_def)
  next
    case False
    with Cons.prems show ?thesis by (simp add: Let_def)
  qed
qed

lemma set_removeSlice: "set (removeSlice cs i) \<subseteq> set cs"
  by (auto simp: removeSlice_def dest: in_set_takeD in_set_dropD)

lemma loop_unit_weights:
  assumes "unit_weights s" and "0 \<le> v" and "v < total s"
  shows "unit_weights (loop R s v) \<and>
         Suc (length (selections (cp (loop R s v)))) = length (selections (cp s)) \<and>
         NEXT (loop R s v) = NEXT s \<and> bc (loop R s v) \<noteq> []"
proof -
  let ?xs = "selections (cp s)"
  from assms have w: "\<forall>c \<in> set ?xs. scanWeight c = 1" and t: "total s = int (length ?xs)"
    by (simp_all add: unit_weights_def)
  obtain key addr where sel: "selector s v = Inr (key, addr)"
    using scan_unit_weights [OF w, of v "total s" 0] assms(2,3) t
    by (auto simp: selector_def)
  then have key: "key < length ?xs" by (rule selector_index)
  have upd: "loop R s v =
      s\<lparr>bc := AList.update addr (DIF s) (bc s),
        assigned := assigned s @ [(addr, DIF s)],
        DIF := DIF s - R,
        total := total s - scanWeight (?xs ! key),
        cp := (cp s)\<lparr>selections := removeSlice ?xs key\<rparr>\<rparr>"
    using sel by (simp add: loop_def Let_def)
  have one: "scanWeight (?xs ! key) = 1"
    using w key by simp
  have len: "Suc (length (removeSlice ?xs key)) = length ?xs"
    using key length_removeSlice [of key ?xs] by simp
  have w': "\<forall>c \<in> set (removeSlice ?xs key). scanWeight c = 1"
    using w set_removeSlice [of ?xs key] by blast
  have t': "total s - 1 = int (length (removeSlice ?xs key))"
    using t len by simp
  show ?thesis
    unfolding upd using one len w' t' by (simp add: unit_weights_def)
qed

lemma sampling_unit_weights:
  assumes "length (selections cs) = 100"
  shows "unit_weights s \<Longrightarrow> NEXT s = 0 \<Longrightarrow> length (selections (cp s)) = k \<Longrightarrow>
         k \<le> 100 \<Longrightarrow> k < fuel \<Longrightarrow> 0 < k \<or> bc s \<noteq> [] \<Longrightarrow>
         \<exists>s'. sampling E cs R fuel s = (Returned, s') \<and> NEXT s' = 100 \<and> bc s' \<noteq> []"
proof (induction k arbitrary: s fuel)
  case 0
  from "0.prems"(5) obtain f where fuel: "fuel = Suc f" by (cases fuel) auto
  have "nextCandidate cs 100 = Err ''SIZE ZERO''"
    using assms by (simp add: nextCandidate_def)
  then have "refill E cs s = (Some Returned, s\<lparr>NEXT := 100\<rparr>)"
    using "0.prems"(2,3) by (simp add: refill_def Let_def)
  with "0.prems"(6) show ?case
    unfolding fuel by simp
next
  case (Suc k)
  from Suc.prems(5) obtain f where fuel: "fuel = Suc f" by (cases fuel) auto
  have rf: "refill E cs s = (None, s)"
    using Suc.prems(3) by (simp add: refill_def)
  have t: "total s = int (Suc k)"
    using Suc.prems(1,3) by (simp add: unit_weights_def)
  then have nz: "total s \<noteq> 0" by simp
  have i64: "Int64 (total s) = total s"
    using t Suc.prems(4) by (intro Int64_small) simp_all
  obtain v g where draw: "rand_Int63n E (rng s) (total s) = (v, g)"
    by (cases "rand_Int63n E (rng s) (total s)")
  have pos: "\<not> total s \<le> 0"
    using t by simp
  have dr: "Int63n E (rng s) (Int64 (total s)) = Inr (v mod total s, g)"
    unfolding i64 by (simp add: Int63n_def pos draw)
  let ?s1 = "s\<lparr>rng := g\<rparr>"
  let ?s2 = "loop R ?s1 (v mod total s)"
  have u1: "unit_weights ?s1"
    using Suc.prems(1) by (simp add: unit_weights_def)
  have v0: "0 \<le> v mod total s" and v1: "v mod total s < total ?s1"
    using t by simp_all
  from loop_unit_weights [OF u1 v0 v1, of R] have
    u2: "unit_weights ?s2" and
    l2: "Suc (length (selections (cp ?s2))) = length (selections (cp s))" and
    n2: "NEXT ?s2 = NEXT s" and b2: "bc ?s2 \<noteq> []"
    by simp_all
  have "\<exists>s'. sampling E cs R f ?s2 = (Returned, s') \<and> NEXT s' = 100 \<and> bc s' \<noteq> []"
    using u2 l2 n2 b2 Suc.prems(2,3,4,5) fuel by (intro Suc.IH) simp_all
  moreover have "sampling E cs R fuel s = sampling E cs R f ?s2"
    unfolding fuel using rf nz dr by simp
  ultimately show ?case by simp
qed

lemma hundredPool_length: "length (selections hundredPool) = 100"
  by (simp add: hundredPool_def)

lemma hundredPool_stake: "c \<in> set (selections hundredPool) \<Longrightarrow> stake c = 10 ^ 10"
  by (auto simp: hundredPool_def)

lemma foldl_advStake:
  "\<forall>c \<in> set xs. advStake E cs c = w \<Longrightarrow>
   foldl (\<lambda>total c. total + advStake E cs c) a xs = a + int (length xs) * w"
  by (induction xs arbitrary: a) (simp_all add: algebra_simps)

lemma hundredPool_first_chunk:
  "nextCandidate hundredPool 0 = Val hundredPool"
  by (simp add: nextCandidate_def hundredPool_length)
     (simp add: hundredPool_def NewCandidates_def)

lemma hundredPool_total: "TotalStakeBalance (zeroAdvantage E) hundredPool = 100"
proof -
  have "\<forall>c \<in> set (selections hundredPool).
          advStake (zeroAdvantage E) hundredPool c = 10 ^ 10"
    by (simp add: advStake_def zeroAdvantage_def hundredPool_stake)
  from foldl_advStake [OF this, of 0] show ?thesis
    by (simp add: TotalStakeBalance_def hundredPool_length)
qed

lemma hundredPool_first_run:
  assumes "100 < fuel"
  shows "ended (GetBlockCreator (zeroAdvantage E) 0 hundredPool n fuel) = Returned \<and>
         NEXT_after (GetBlockCreator (zeroAdvantage E) 0 hundredPool n fuel) = 100 \<and>
         created (GetBlockCreator (zeroAdvantage E) 0 hundredPool n fuel) \<noteq> []"
proof -
  let ?E = "zeroAdvantage E"
  let ?s0 = "\<lparr>cp = hundredPool, total = TotalStakeBalance ?E hundredPool, DIF = DIF_MAX,
              bc = [], NEXT = 0, rng = rand_Seed ?E (GetSeed ?E n), assigned = []\<rparr>"
  let ?R = "(DIF_MAX - DIF_MIN) div int (length (selections hundredPool))"
  have u: "unit_weights ?s0"
    by (simp add: unit_weights_def hundredPool_total hundredPool_length scanWeight_def
          hundredPool_stake)
  obtain s' where run: "sampling ?E hundredPool ?R fuel ?s0 = (Returned, s')"
    and nx: "NEXT s' = 100" and b: "bc s' \<noteq> []"
    using sampling_unit_weights [OF hundredPool_length u, of 100 fuel ?E ?R] assms
    by (auto simp: hundredPool_length)
  have "GetBlockCreator ?E 0 hundredPool n fuel = outcome_of (Returned, s')"
    using run by (simp add: GetBlockCreator_def hundredPool_first_chunk hundredPool_length Let_def)
  with nx b show ?thesis by (simp add: outcome_of_def)
qed

lemma GetBlockCreator_at_end:
  "GetBlockCreator E (length (selections cs)) cs n fuel =
     \<lparr>ended = Returned, created = [], NEXT_after = length (selections cs), ranked = []\<rparr>"
  by (simp add: GetBlockCreator_def nextCandidate_def)

text \<open>
  Claim C1 on the code: two calls in one process, on the same pool and the same block
  height. The first call assigns difficulties and returns, leaving \<^verbatim>\<open>NEXT\<close> at 100;
  no statement of the package sets \<^verbatim>\<open>NEXT\<close> back, so the second call starts at 100,
  finds no candidate and returns the empty map. This holds for every hash function and
  every generator.
\<close>

theorem second_run_differs:
  "ended (GetBlockCreator (zeroAdvantage E) 0 hundredPool n (101 + fuel)) = Returned \<and>
   created (GetBlockCreator (zeroAdvantage E) 0 hundredPool n (101 + fuel)) \<noteq> [] \<and>
   NEXT_after (GetBlockCreator (zeroAdvantage E) 0 hundredPool n (101 + fuel)) = 100 \<and>
   GetBlockCreator (zeroAdvantage E)
       (NEXT_after (GetBlockCreator (zeroAdvantage E) 0 hundredPool n (101 + fuel)))
       hundredPool n (101 + fuel) =
     \<lparr>ended = Returned, created = [], NEXT_after = 100, ranked = []\<rparr>"
proof -
  have f: "100 < 101 + fuel" by simp
  note first = hundredPool_first_run [OF f, of E n]
  have "GetBlockCreator (zeroAdvantage E) 100 hundredPool n (101 + fuel) =
          \<lparr>ended = Returned, created = [], NEXT_after = 100, ranked = []\<rparr>"
    using GetBlockCreator_at_end [of "zeroAdvantage E" hundredPool n "101 + fuel"]
    by (simp add: hundredPool_length)
  with first show ?thesis by simp
qed

end
